theory Spec2Isabelle
  imports Main "HOL-Library.Sublist"
begin

section \<open>Release synchronisation script: string primitives\<close>

text \<open>
  The script \<^verbatim>\<open>scripts/sync-release-to-supabase.js\<close> works on JavaScript strings.
  They are modelled as \<^typ>\<open>string\<close>, a list of 8-bit characters read as the code units
  U+0000 to U+00FF; code units above U+00FF are outside the model.
\<close>

text \<open>\<^verbatim>\<open>String.prototype.includes\<close>: the argument occurs as a contiguous run.\<close>

fun includes_js :: "string \<Rightarrow> string \<Rightarrow> bool" where
  "includes_js [] pat = (pat = [])"
| "includes_js (c # cs) pat = (prefix pat (c # cs) \<or> includes_js cs pat)"

text \<open>
  \<^verbatim>\<open>String.prototype.toLowerCase\<close> on the code units below U+0100: the letters A to Z and
  the Latin-1 capitals U+00C0 to U+00DE (without the multiplication sign U+00D7) move up
  by 32, every other code unit stays.
\<close>

definition lower_char :: "char \<Rightarrow> char" where
  "lower_char c =
     (let n = (of_char c :: nat)
      in if (65 \<le> n \<and> n \<le> 90) \<or> (192 \<le> n \<and> n \<le> 222 \<and> n \<noteq> 215)
         then char_of (n + 32) else c)"

definition toLowerCase :: "string \<Rightarrow> string" where
  "toLowerCase s = map lower_char s"

text \<open>
  \<^verbatim>\<open>String.prototype.trim\<close>: white space and line terminators below U+0100 are
  TAB, LF, VT, FF, CR, SPACE and NBSP.
\<close>

definition is_space :: "char \<Rightarrow> bool" where
  "is_space c = ((of_char c :: nat) \<in> {9, 10, 11, 12, 13, 32, 160})"

definition trim :: "string \<Rightarrow> string" where
  "trim s = rev (dropWhile is_space (rev (dropWhile is_space s)))"

text \<open>
  \<^verbatim>\<open>String.prototype.split\<close> with a string separator: the pieces between the
  occurrences of the separator, found from left to right without overlap. The
  accumulator \<open>cur\<close> holds the piece being read. An empty separator splits into single
  code units.
\<close>

function split_from :: "string \<Rightarrow> string \<Rightarrow> string \<Rightarrow> string list" where
  "split_from sep cur [] = [cur]"
| "split_from sep cur (c # cs) =
     (if sep \<noteq> [] \<and> prefix sep (c # cs)
      then cur # split_from sep [] (drop (length sep) (c # cs))
      else split_from sep (cur @ [c]) cs)"
  by pat_completeness auto
termination
  by (relation "measure (\<lambda>(sep, cur, s). length s)") auto

definition split_js :: "string \<Rightarrow> string \<Rightarrow> string list" where
  "split_js s sep = (if sep = [] then map (\<lambda>c. [c]) s else split_from sep [] s)"

text \<open>
  \<^verbatim>\<open>String.prototype.replace\<close> with a string pattern: only the first occurrence is
  replaced. The replacement text is taken literally (the script passes the empty
  string).
\<close>

fun replace_js :: "string \<Rightarrow> string \<Rightarrow> string \<Rightarrow> string" where
  "replace_js [] pat rep = (if pat = [] then rep else [])"
| "replace_js (c # cs) pat rep =
     (if prefix pat (c # cs) then rep @ drop (length pat) (c # cs)
      else c # replace_js cs pat rep)"

section \<open>Data model\<close>

text \<open>The fields of a release asset and of a release that the script reads.\<close>

record asset =
  asset_name :: string
  asset_id :: nat
  browser_download_url :: string
  asset_size :: nat

record release =
  tag_name :: string
  release_name :: "string option"
  release_id :: nat
  draft :: bool
  body :: "string option"
  published_at :: "string option"
  created_at :: "string option"
  assets :: "asset list"

text \<open>The object \<^verbatim>\<open>versionData\<close>, one row of the table \<^verbatim>\<open>app_versions\<close>.\<close>

record version_record =
  version :: string
  platform :: string
  architecture :: string
  file_name :: string
  download_url :: string
  file_size :: nat
  sha512 :: string
  release_notes :: string
  github_release_id :: nat
  github_asset_id :: nat
  row_created_at :: "string option"
  updated_at :: string
  is_latest :: bool

text \<open>
  The table is a list of rows. The upsert names its conflict target
  \<^verbatim>\<open>version,platform,architecture\<close>, which the database accepts only with a unique
  constraint on these columns: \<open>unique_keys\<close> states it.
\<close>

type_synonym db = "version_record list"

definition row_key :: "version_record \<Rightarrow> string \<times> string \<times> string" where
  "row_key r = (version r, platform r, architecture r)"

definition unique_keys :: "db \<Rightarrow> bool" where
  "unique_keys d = distinct (map row_key d)"

text \<open>The errors the script throws, with the values their messages are built from.\<close>

datatype error =
    MissingCredentials
  | ReleaseNotFound string
  | GitHubApiError nat string
  | YmlFetchFailed nat string
  | SHA512NotFound string
  | UpsertFailed string string
  | NetworkError string
  | TypeError

text \<open>
  What \<^verbatim>\<open>fetch\<close> gives back: it rejects, or it resolves to a response with a status,
  a status text and a payload (the parsed JSON of a release, or the text of a
  manifest). \<^verbatim>\<open>response.ok\<close> holds for the statuses 200 to 299.
\<close>

datatype 'a fetched = Rejected string | Response nat string 'a

definition ok :: "nat \<Rightarrow> bool" where
  "ok st = (200 \<le> st \<and> st \<le> 299)"

text \<open>
  The world outside the script: the release host answering the three requests, the
  database client answering the upsert (an error message or none) and the update
  (done or silently not done), and the clock.
\<close>

record io =
  fetch_release_by_id :: "string \<Rightarrow> release fetched"
  fetch_release_by_tag :: "string \<Rightarrow> release fetched"
  fetch_asset :: "nat \<Rightarrow> string fetched"
  upsert_error :: "version_record \<Rightarrow> string option"
  update_ok :: bool
  now_iso :: string

text \<open>
  The environment variables read at the top of the script; \<^verbatim>\<open>isManualTrigger\<close> is
  the comparison of \<^verbatim>\<open>MANUAL_TRIGGER\<close> with \<^verbatim>\<open>'true'\<close>.
\<close>

record config =
  supabaseUrl :: "string option"
  supabaseKey :: "string option"
  releaseTag :: "string option"
  releaseId :: "string option"
  isManualTrigger :: bool

text \<open>Truthiness of a value that is a string or absent, and its text in a template.\<close>

definition truthy :: "string option \<Rightarrow> bool" where
  "truthy v = (case v of None \<Rightarrow> False | Some s \<Rightarrow> s \<noteq> [])"

definition template_text :: "string option \<Rightarrow> string" where
  "template_text v = (case v of None \<Rightarrow> ''undefined'' | Some s \<Rightarrow> s)"

section \<open>The functions of the script\<close>

subsection \<open>Release Fetcher\<close>

definition fetchReleaseById :: "io \<Rightarrow> string \<Rightarrow> error + release" where
  "fetchReleaseById w rid =
     (case fetch_release_by_id w rid of
        Rejected m \<Rightarrow> Inl (NetworkError m)
      | Response st txt rel \<Rightarrow>
          if \<not> ok st then Inl (GitHubApiError st txt) else Inr rel)"

definition fetchReleaseByTag :: "io \<Rightarrow> string \<Rightarrow> error + release option" where
  "fetchReleaseByTag w tag =
     (case fetch_release_by_tag w tag of
        Rejected m \<Rightarrow> Inl (NetworkError m)
      | Response st txt rel \<Rightarrow>
          if \<not> ok st
          then (if st = 404 then Inr None else Inl (GitHubApiError st txt))
          else Inr (Some rel))"

subsection \<open>Asset Filter\<close>

definition appExtensions :: "string list" where
  "appExtensions = [''.dmg'', ''.exe'', ''.AppImage'', ''.deb'', ''.rpm'']"

definition excludedPatterns :: "string list" where
  "excludedPatterns = [''.blockmap'', ''.yml'', ''.yaml'', ''.json'', ''.txt'', ''.md'']"

definition isAppAsset :: "asset \<Rightarrow> bool" where
  "isAppAsset a =
     (if list_ex (\<lambda>pattern. includes_js (toLowerCase (asset_name a)) pattern) excludedPatterns
      then False
      else list_ex (\<lambda>ext. includes_js (toLowerCase (asset_name a)) ext) appExtensions)"

subsection \<open>Attribute Deriver\<close>

definition detectPlatform :: "string \<Rightarrow> string" where
  "detectPlatform fileName =
     (if includes_js fileName ''.dmg'' then ''darwin''
      else if includes_js fileName ''.exe'' then ''win32''
      else if includes_js fileName ''.AppImage'' \<or> includes_js fileName ''.deb'' then ''linux''
      else ''unknown'')"

definition detectArchitecture :: "string \<Rightarrow> string" where
  "detectArchitecture fileName =
     (if includes_js fileName ''arm64'' then ''arm64''
      else if includes_js fileName ''x64'' \<or> includes_js fileName ''x86_64'' then ''x64''
      else if includes_js fileName ''ia32'' \<or> includes_js fileName ''i386'' then ''ia32''
      else ''x64'')"

subsection \<open>Hash Resolver\<close>

text \<open>
  The \<^verbatim>\<open>for\<close> loop over the lines of the manifest, from index \<open>i\<close>. A matching url
  line whose next line has no \<^verbatim>\<open>sha512:\<close> is logged and the loop goes on. The second
  piece of the split is read with \<^verbatim>\<open>[1]\<close>; were it missing, \<^verbatim>\<open>.trim()\<close> on
  \<^verbatim>\<open>undefined\<close> would throw a TypeError. \<open>None\<close> is the loop running to its end.
\<close>

function scan_lines :: "string \<Rightarrow> string list \<Rightarrow> nat \<Rightarrow> error + string option" where
  "scan_lines assetName lines i =
     (if i < length lines then
        (if includes_js (lines ! i) (''url: '' @ assetName) then
           (if i + 1 < length lines \<and> includes_js (lines ! (i + 1)) ''sha512:'' then
              (case split_js (lines ! (i + 1)) ''sha512:'' of
                 _ # piece # _ \<Rightarrow> Inr (Some (trim piece))
               | _ \<Rightarrow> Inl TypeError)
            else scan_lines assetName lines (i + 1))
         else scan_lines assetName lines (i + 1))
      else Inr None)"
  by pat_completeness auto
termination
  by (relation "measure (\<lambda>(n, ls, i). length ls - i)") auto

declare scan_lines.simps [simp del]

definition getSHA512FromYml :: "io \<Rightarrow> asset \<Rightarrow> release \<Rightarrow> error + string" where
  "getSHA512FromYml w a rel =
     (let assetName = asset_name a;
          assetPlatform = (if includes_js assetName ''arm64'' then ''arm64'' else ''x64'')
      in case List.find (\<lambda>y. asset_name y = ''latest-'' @ assetPlatform @ ''-mac.yml'')
                (assets rel) of
           None \<Rightarrow> Inl (SHA512NotFound (asset_name a))
         | Some ymlAsset \<Rightarrow>
             (case fetch_asset w (asset_id ymlAsset) of
                Rejected m \<Rightarrow> Inl (NetworkError m)
              | Response st txt content \<Rightarrow>
                  if \<not> ok st then Inl (YmlFetchFailed st txt)
                  else (case scan_lines assetName (split_js content [CHR 0x0A]) 0 of
                          Inl e \<Rightarrow> Inl e
                        | Inr (Some h) \<Rightarrow> Inr h
                        | Inr None \<Rightarrow> Inl (SHA512NotFound (asset_name a)))))"

subsection \<open>Persistence Writer\<close>

text \<open>
  The upsert overwrites the row with the same (version, platform, architecture) or
  adds the row; the update clears \<^verbatim>\<open>is_latest\<close> on the rows of the same platform and
  architecture with another version.
\<close>

definition upsert :: "version_record \<Rightarrow> db \<Rightarrow> db" where
  "upsert v d =
     (if list_ex (\<lambda>r. row_key r = row_key v) d
      then map (\<lambda>r. if row_key r = row_key v then v else r) d
      else d @ [v])"

definition demote_others :: "string \<Rightarrow> string \<Rightarrow> string \<Rightarrow> db \<Rightarrow> db" where
  "demote_others p a v d =
     map (\<lambda>r. if platform r = p \<and> architecture r = a \<and> version r \<noteq> v
               then r\<lparr>is_latest := False\<rparr> else r) d"

definition versionData :: "io \<Rightarrow> asset \<Rightarrow> release \<Rightarrow> string \<Rightarrow> version_record" where
  "versionData w a rel h =
     \<lparr> version = replace_js (tag_name rel) ''v'' [],
       platform = detectPlatform (asset_name a),
       architecture = detectArchitecture (asset_name a),
       file_name = asset_name a,
       download_url = browser_download_url a,
       file_size = asset_size a,
       sha512 = h,
       release_notes = (if truthy (body rel) then the (body rel)
                        else ''Version '' @ tag_name rel),
       github_release_id = release_id rel,
       github_asset_id = asset_id a,
       row_created_at = (if truthy (published_at rel) then published_at rel
                         else created_at rel),
       updated_at = now_iso w,
       is_latest = True \<rparr>"

definition processAsset :: "io \<Rightarrow> asset \<Rightarrow> release \<Rightarrow> db \<Rightarrow> error + db" where
  "processAsset w a rel d =
     (let platform = detectPlatform (asset_name a);
          architecture = detectArchitecture (asset_name a)
      in case getSHA512FromYml w a rel of
           Inl e \<Rightarrow> Inl e
         | Inr h \<Rightarrow>
             (let v = versionData w a rel h
              in case upsert_error w v of
                   Some m \<Rightarrow> Inl (UpsertFailed (asset_name a) m)
                 | None \<Rightarrow>
                     (let d1 = upsert v d
                      in Inr (if update_ok w
                              then demote_others platform architecture
                                     (replace_js (tag_name rel) ''v'' []) d1
                              else d1))))"

subsection \<open>The job\<close>

text \<open>
  The loop over the assets of the release: the table, the number of assets processed
  and the error that stopped the loop, if any.
\<close>

fun process_assets :: "io \<Rightarrow> release \<Rightarrow> asset list \<Rightarrow> db \<Rightarrow> nat \<Rightarrow> error option \<times> db \<times> nat" where
  "process_assets w rel [] d n = (None, d, n)"
| "process_assets w rel (a # as) d n =
     (if isAppAsset a
      then (case processAsset w a rel d of
              Inl e \<Rightarrow> (Some e, d, n)
            | Inr d' \<Rightarrow> process_assets w rel as d' (n + 1))
      else process_assets w rel as d n)"

record outcome =
  exit_code :: nat
  failure :: "error option"
  final_db :: db

definition syncReleaseToSupabase :: "config \<Rightarrow> io \<Rightarrow> db \<Rightarrow> outcome" where
  "syncReleaseToSupabase c w d =
     (if \<not> truthy (supabaseUrl c) \<or> \<not> truthy (supabaseKey c)
      then \<lparr>exit_code = 1, failure = Some MissingCredentials, final_db = d\<rparr>
      else
        (case (if truthy (releaseId c) \<and> \<not> isManualTrigger c
               then map_sum id Some (fetchReleaseById w (template_text (releaseId c)))
               else fetchReleaseByTag w (template_text (releaseTag c))) of
           Inl e \<Rightarrow> \<lparr>exit_code = 1, failure = Some e, final_db = d\<rparr>
         | Inr None \<Rightarrow>
             \<lparr>exit_code = 1, failure = Some (ReleaseNotFound (template_text (releaseTag c))),
              final_db = d\<rparr>
         | Inr (Some rel) \<Rightarrow>
             if draft rel then \<lparr>exit_code = 0, failure = None, final_db = d\<rparr>
             else (case process_assets w rel (assets rel) d 0 of
                     (Some e, d', n) \<Rightarrow> \<lparr>exit_code = 1, failure = Some e, final_db = d'\<rparr>
                   | (None, d', n) \<Rightarrow> \<lparr>exit_code = 0, failure = None, final_db = d'\<rparr>)))"

section \<open>Notions used in the statements, and example inputs\<close>

text \<open>
  The two tests of the loop in \<^verbatim>\<open>getSHA512FromYml\<close> that lead to its \<^verbatim>\<open>return\<close>: line
  \<open>i\<close> contains the url text of the asset and line \<open>i + 1\<close> exists and contains the
  marker.
\<close>

definition hash_pair_at :: "string \<Rightarrow> string list \<Rightarrow> nat \<Rightarrow> bool" where
  "hash_pair_at assetName lines i =
     (i + 1 < length lines \<and> includes_js (lines ! i) (''url: '' @ assetName) \<and>
      includes_js (lines ! (i + 1)) ''sha512:'')"

text \<open>
  The first test of \<^verbatim>\<open>isAppAsset\<close>: the lowercased name contains an excluded pattern.
\<close>

definition excluded_name :: "string \<Rightarrow> bool" where
  "excluded_name n = list_ex (\<lambda>pattern. includes_js (toLowerCase n) pattern) excludedPatterns"

text \<open>
  The rows of a platform and architecture that are marked latest, and the invariant of
  the table: for the platform and architecture of every row, at most one row is marked
  latest.
\<close>

definition latest_rows :: "string \<Rightarrow> string \<Rightarrow> db \<Rightarrow> db" where
  "latest_rows p a d = filter (\<lambda>r. platform r = p \<and> architecture r = a \<and> is_latest r) d"

definition single_latest :: "db \<Rightarrow> bool" where
  "single_latest d = list_all (\<lambda>r. length (latest_rows (platform r) (architecture r) d) \<le> 1) d"

text \<open>
  Example inputs: a manifest given by its lines, each ended by a line feed; a release
  host that serves this manifest for every asset download and a database client whose
  writes succeed; an asset and a release with the given name, tag and assets.
\<close>

definition manifest_of_lines :: "string list \<Rightarrow> string" where
  "manifest_of_lines ls = concat (map (\<lambda>l. l @ [CHR 0x0A]) ls)"

definition example_host :: "string \<Rightarrow> io" where
  "example_host manifest =
     \<lparr> fetch_release_by_id = (\<lambda>_. Rejected ''offline''),
       fetch_release_by_tag = (\<lambda>_. Rejected ''offline''),
       fetch_asset = (\<lambda>_. Response 200 ''OK'' manifest),
       upsert_error = (\<lambda>_. None),
       update_ok = True,
       now_iso = ''2024-05-01T00:00:00.000Z'' \<rparr>"

definition example_asset :: "string \<Rightarrow> nat \<Rightarrow> asset" where
  "example_asset n i =
     \<lparr> asset_name = n, asset_id = i,
       browser_download_url = ''https://github.invalid/download/'' @ n,
       asset_size = 1024 \<rparr>"

definition example_release :: "string \<Rightarrow> asset list \<Rightarrow> release" where
  "example_release tag as =
     \<lparr> tag_name = tag, release_name = None, release_id = 7, draft = False, body = None,
       published_at = Some ''2024-05-01T00:00:00Z'', created_at = Some ''2024-04-30T00:00:00Z'',
       assets = as \<rparr>"

text \<open>
  More example inputs: releases \<^verbatim>\<open>v1.2.0\<close> and \<^verbatim>\<open>v1.3.0\<close> with one macOS disk image each
  and a host whose manifest lists both; a configuration for a manual run by tag; a
  host that answers the tag lookup with status 404.
\<close>

definition dmg_asset :: "string \<Rightarrow> asset" where
  "dmg_asset ver = example_asset (''PhotoPick-'' @ ver @ ''-x64.dmg'') 1"

definition dmg_release :: "string \<Rightarrow> release" where
  "dmg_release ver =
     example_release (''v'' @ ver) [dmg_asset ver, example_asset ''latest-x64-mac.yml'' 2]"

definition dmg_host :: io where
  "dmg_host = example_host (manifest_of_lines
     [''url: PhotoPick-1.2.0-x64.dmg'', ''sha512: HASH120'',
      ''url: PhotoPick-1.3.0-x64.dmg'', ''sha512: HASH130''])"

definition example_config :: "string \<Rightarrow> config" where
  "example_config tag =
     \<lparr> supabaseUrl = Some ''https://db.invalid'', supabaseKey = Some ''service-key'',
       releaseTag = Some tag, releaseId = None, isManualTrigger = True \<rparr>"

definition host_without_release :: io where
  "host_without_release =
     (example_host [])\<lparr>fetch_release_by_tag :=
        (\<lambda>_. Response 404 ''Not Found'' (example_release [] []))\<rparr>"

section \<open>Properties\<close>

subsection \<open>Strings\<close>

lemma includes_js_sublist: "includes_js s pat = sublist pat s"
  by (induction s) (simp_all add: sublist_Cons_right)

lemma includes_js_iff: "includes_js s pat \<longleftrightarrow> (\<exists>pre suf. s = pre @ pat @ suf)"
  by (simp add: includes_js_sublist sublist_def)

lemma includes_js_toLowerCase:
  assumes "includes_js s pat"
  shows "includes_js (toLowerCase s) (toLowerCase pat)"
proof -
  from assms obtain pre suf where "s = pre @ pat @ suf"
    by (auto simp: includes_js_iff)
  then have "toLowerCase s = toLowerCase pre @ toLowerCase pat @ toLowerCase suf"
    by (simp add: toLowerCase_def)
  then show ?thesis
    unfolding includes_js_iff by blast
qed

lemma lower_char_not_capital_A: "lower_char c \<noteq> CHR ''A''"
proof -
  have "of_char (lower_char c) \<noteq> (65::nat)"
    by (auto simp: lower_char_def Let_def)
  then show ?thesis by auto
qed

lemma includes_js_mem: "includes_js s pat \<Longrightarrow> c \<in> set pat \<Longrightarrow> c \<in> set s"
  by (auto simp: includes_js_iff)

lemma toLowerCase_never_AppImage: "\<not> includes_js (toLowerCase n) ''.AppImage''"
proof
  assume "includes_js (toLowerCase n) ''.AppImage''"
  then have "CHR ''A'' \<in> set (toLowerCase n)"
    by (rule includes_js_mem) simp
  moreover have "\<forall>c \<in> set (toLowerCase n). c \<noteq> CHR ''A''"
    by (simp add: toLowerCase_def lower_char_not_capital_A)
  ultimately show False by blast
qed

lemma split_from_none:
  "\<not> sublist sep s \<Longrightarrow> split_from sep cur s = [cur @ s]"
proof (induction s arbitrary: cur)
  case Nil
  then show ?case by simp
next
  case (Cons c cs)
  then have "\<not> prefix sep (c # cs)" and "\<not> sublist sep cs"
    by (simp_all add: sublist_Cons_right)
  with Cons.IH [of "cur @ [c]"] show ?case by simp
qed

lemma prefix_before_marker:
  assumes "prefix sep (pre @ sep @ s)" and "pre \<noteq> []" and "sep \<noteq> []"
  shows "prefix sep (pre @ butlast sep)"
proof -
  have len: "length sep \<le> length (pre @ butlast sep)"
    using assms(2,3) by (cases pre) simp_all
  have eq: "pre @ sep @ s = (pre @ butlast sep) @ (last sep # s)"
    using append_butlast_last_id [OF assms(3)]
    by (metis append.assoc append_Cons append_Nil)
  have "prefix (pre @ butlast sep) (pre @ sep @ s)"
    by (rule prefixI) (rule eq)
  with assms(1) len show ?thesis
    using prefix_length_prefix by blast
qed

lemma split_from_first:
  assumes "sep \<noteq> []" and "\<not> sublist sep (pre @ butlast sep)"
  shows "split_from sep cur (pre @ sep @ s) = (cur @ pre) # split_from sep [] s"
  using assms(2)
proof (induction pre arbitrary: cur)
  case Nil
  from assms(1) obtain c cs where sep: "sep = c # cs" by (cases sep) auto
  have "split_from sep cur (c # (cs @ s)) = cur # split_from sep [] (drop (length sep) (c # (cs @ s)))"
    using sep by (subst split_from.simps) simp
  then show ?case using sep by simp
next
  case (Cons p ps)
  have no_pre: "\<not> prefix sep ((p # ps) @ sep @ s)"
  proof
    assume "prefix sep ((p # ps) @ sep @ s)"
    then have "prefix sep ((p # ps) @ butlast sep)"
      using assms(1) by (intro prefix_before_marker) simp_all
    then have "sublist sep ((p # ps) @ butlast sep)"
      by (rule prefix_imp_sublist)
    with Cons.prems show False by simp
  qed
  have "\<not> sublist sep (ps @ butlast sep)"
    using Cons.prems by (simp add: sublist_Cons_right)
  from Cons.IH [OF this, of "cur @ [p]"] no_pre show ?case by simp
qed

lemma marker_no_overlap:
  assumes "\<not> sublist ''sha512:'' pre"
  shows "\<not> sublist ''sha512:'' (pre @ butlast ''sha512:'')"
proof
  assume "sublist ''sha512:'' (pre @ butlast ''sha512:'')"
  then consider "sublist ''sha512:'' pre" | "sublist ''sha512:'' ''sha512''"
    | xs1 xs2 where "''sha512:'' = xs1 @ xs2" "suffix xs1 pre" "prefix xs2 ''sha512''"
    by (auto simp: sublist_append)
  then show False
  proof cases
    case 1
    with assms show ?thesis by simp
  next
    case 2
    then have "length ''sha512:'' \<le> length ''sha512''"
      by (rule sublist_length_le)
    then show ?thesis by simp
  next
    case 3
    show ?thesis
    proof (cases "xs2 = []")
      case True
      with 3 have "suffix ''sha512:'' pre" by simp
      then have "sublist ''sha512:'' pre" by (rule suffix_imp_sublist)
      with assms show ?thesis by simp
    next
      case False
      then have "last xs2 = last (xs1 @ xs2)" by simp
      also have "\<dots> = CHR '':''" using 3(1) [symmetric] by simp
      finally have "CHR '':'' \<in> set xs2"
        using False last_in_set by metis
      moreover have "set xs2 \<subseteq> set ''sha512''"
        using 3(3) by (rule set_mono_prefix)
      ultimately show ?thesis by auto
    qed
  qed
qed

lemma split_js_marker:
  assumes "\<not> includes_js pre ''sha512:''"
  shows "split_js (pre @ ''sha512:'' @ rest) ''sha512:'' = pre # split_js rest ''sha512:''"
proof -
  have "\<not> sublist ''sha512:'' (pre @ butlast ''sha512:'')"
    using assms by (intro marker_no_overlap) (simp add: includes_js_sublist)
  then have "split_from ''sha512:'' [] (pre @ ''sha512:'' @ rest)
      = ([] @ pre) # split_from ''sha512:'' [] rest"
    by (intro split_from_first) simp_all
  then show ?thesis by (simp add: split_js_def)
qed

lemma split_js_no_marker:
  "\<not> includes_js s ''sha512:'' \<Longrightarrow> split_js s ''sha512:'' = [s]"
  using split_from_none [of "''sha512:''" s "[]"]
  by (simp add: split_js_def includes_js_sublist)

lemma split_from_nonempty: "split_from sep cur s \<noteq> []"
  by (induction sep cur s rule: split_from.induct) simp_all

lemma split_from_two_pieces:
  "sublist sep s \<Longrightarrow> sep \<noteq> [] \<Longrightarrow> \<exists>p q qs. split_from sep cur s = p # q # qs"
proof (induction s arbitrary: cur)
  case Nil
  then show ?case by simp
next
  case (Cons c cs)
  show ?case
  proof (cases "prefix sep (c # cs)")
    case True
    obtain q qs where "split_from sep [] (drop (length sep) (c # cs)) = q # qs"
      using split_from_nonempty by (meson neq_Nil_conv)
    with True Cons.prems(2) show ?thesis by simp
  next
    case False
    with Cons.prems have "sublist sep cs"
      by (simp add: sublist_Cons_right)
    from Cons.IH [OF this Cons.prems(2), of "cur @ [c]"] False show ?thesis by simp
  qed
qed

lemma split_js_two_pieces:
  assumes "includes_js l ''sha512:''"
  shows "\<exists>p q qs. split_js l ''sha512:'' = p # q # qs"
  using split_from_two_pieces [of "''sha512:''" l "[]"] assms
  by (simp add: split_js_def includes_js_sublist)

lemma scan_lines_at_pair:
  assumes "hash_pair_at n ls i"
  shows "\<exists>p q qs. split_js (ls ! (i + 1)) ''sha512:'' = p # q # qs \<and>
           scan_lines n ls i = Inr (Some (trim q))"
proof -
  from assms obtain p q qs where "split_js (ls ! (i + 1)) ''sha512:'' = p # q # qs"
    using split_js_two_pieces unfolding hash_pair_at_def by blast
  moreover from this assms have "scan_lines n ls i = Inr (Some (trim q))"
    by (subst scan_lines.simps) (simp add: hash_pair_at_def)
  ultimately show ?thesis by blast
qed

lemma scan_lines_skip:
  "i \<le> j \<Longrightarrow> (\<And>k. i \<le> k \<Longrightarrow> k < j \<Longrightarrow> \<not> hash_pair_at n ls k) \<Longrightarrow> j \<le> length ls
     \<Longrightarrow> scan_lines n ls i = scan_lines n ls j"
proof (induction n ls i rule: scan_lines.induct)
  case (1 n ls i)
  show ?case
  proof (cases "i = j")
    case True
    then show ?thesis by simp
  next
    case False
    with "1.prems" have lt: "i < j" and "i < length ls" by simp_all
    have nopair: "\<not> hash_pair_at n ls i"
      using "1.prems"(2) [of i] lt by simp
    have step: "scan_lines n ls i = scan_lines n ls (i + 1)"
      using nopair \<open>i < length ls\<close>
      by (subst scan_lines.simps) (auto simp: hash_pair_at_def)
    have rest: "scan_lines n ls (i + 1) = scan_lines n ls j"
    proof (cases "includes_js (ls ! i) (''url: '' @ n)")
      case True
      then have "\<not> (i + 1 < length ls \<and> includes_js (ls ! (i + 1)) ''sha512:'')"
        using nopair by (simp add: hash_pair_at_def)
      from "1.IH"(1) [OF \<open>i < length ls\<close> True this] lt "1.prems"(2,3) show ?thesis
        by simp
    next
      case False
      from "1.IH"(2) [OF \<open>i < length ls\<close> False] lt "1.prems"(2,3) show ?thesis
        by simp
    qed
    from step rest show ?thesis by simp
  qed
qed

lemma scan_lines_end: "length ls \<le> i \<Longrightarrow> scan_lines n ls i = Inr None"
  by (subst scan_lines.simps) simp

lemma scan_lines_no_pair:
  assumes "\<And>k. \<not> hash_pair_at n ls k"
  shows "scan_lines n ls 0 = Inr None"
proof -
  have "scan_lines n ls 0 = scan_lines n ls (length ls)"
    using assms by (intro scan_lines_skip) simp_all
  then show ?thesis by (simp add: scan_lines_end)
qed

lemma scan_lines_some_pair:
  assumes "hash_pair_at n ls j"
  shows "\<exists>h. scan_lines n ls 0 = Inr (Some h)"
proof -
  from assms have "\<exists>k. hash_pair_at n ls k" by blast
  then obtain k where k: "hash_pair_at n ls k"
    and least: "\<And>m. m < k \<Longrightarrow> \<not> hash_pair_at n ls m"
    using exists_least_iff [of "hash_pair_at n ls"] by blast
  from k have "k \<le> length ls" by (simp add: hash_pair_at_def)
  then have "scan_lines n ls 0 = scan_lines n ls k"
    using least by (intro scan_lines_skip) simp_all
  with scan_lines_at_pair [OF k] show ?thesis by auto
qed

subsection \<open>The table\<close>

lemma single_latest_iff:
  "single_latest d \<longleftrightarrow> (\<forall>p a. length (latest_rows p a d) \<le> 1)"
proof
  assume sl: "single_latest d"
  show "\<forall>p a. length (latest_rows p a d) \<le> 1"
  proof (intro allI)
    fix p a
    show "length (latest_rows p a d) \<le> 1"
    proof (cases "latest_rows p a d")
      case Nil
      then show ?thesis by simp
    next
      case (Cons r rs)
      then have "r \<in> set (latest_rows p a d)" by simp
      then have "r \<in> set d" and "platform r = p" and "architecture r = a"
        by (simp_all add: latest_rows_def)
      with sl show ?thesis
        by (auto simp: single_latest_def list_all_iff)
    qed
  qed
next
  assume "\<forall>p a. length (latest_rows p a d) \<le> 1"
  then show "single_latest d"
    by (simp add: single_latest_def list_all_iff)
qed

lemma row_keys_upsert_present:
  "map row_key (map (\<lambda>r. if row_key r = row_key v then v else r) d) = map row_key d"
  by (induction d) simp_all

lemma unique_keys_upsert: "unique_keys d \<Longrightarrow> unique_keys (upsert v d)"
  by (auto simp: unique_keys_def upsert_def list_ex_iff row_keys_upsert_present
      simp del: map_map)

lemma row_keys_demote_others: "map row_key (demote_others p a v d) = map row_key d"
  by (induction d) (simp_all add: demote_others_def row_key_def)

lemma unique_keys_demote_others: "unique_keys d \<Longrightarrow> unique_keys (demote_others p a v d)"
  by (simp add: unique_keys_def row_keys_demote_others)

lemma row_in_upsert: "v \<in> set (upsert v d)"
  by (auto simp: upsert_def list_ex_iff)

lemma key_in_upsert: "r \<in> set (upsert v d) \<Longrightarrow> row_key r = row_key v \<Longrightarrow> r = v"
  by (auto simp: upsert_def list_ex_iff split: if_splits)

lemma filter_key_unique:
  "distinct (map f xs) \<Longrightarrow> x \<in> set xs \<Longrightarrow> filter (\<lambda>r. f r = f x) xs = [x]"
proof (induction xs)
  case Nil
  then show ?case by simp
next
  case (Cons y ys)
  show ?case
  proof (cases "y = x")
    case True
    with Cons.prems have "f x \<notin> f ` set ys" by simp
    then have "filter (\<lambda>r. f r = f x) ys = []"
      unfolding filter_empty_conv by (metis imageI)
    with True show ?thesis by simp
  next
    case False
    with Cons.prems have "x \<in> set ys" and "f y \<noteq> f x" by auto
    with Cons show ?thesis by simp
  qed
qed

lemma latest_rows_written_pair:
  assumes "unique_keys d" and "is_latest v"
  shows "latest_rows (platform v) (architecture v)
           (demote_others (platform v) (architecture v) (version v) (upsert v d)) = [v]"
proof -
  let ?g = "\<lambda>r. if platform r = platform v \<and> architecture r = architecture v \<and>
                     version r \<noteq> version v
                  then r\<lparr>is_latest := False\<rparr> else r"
  let ?P = "\<lambda>r. platform r = platform v \<and> architecture r = architecture v \<and> is_latest r"
  have uk: "distinct (map row_key (upsert v d))"
    using unique_keys_upsert [OF assms(1)] by (simp add: unique_keys_def)
  have "filter (?P \<circ> ?g) (upsert v d) = filter (\<lambda>r. row_key r = row_key v) (upsert v d)"
  proof (rule filter_cong [OF refl])
    fix r assume "r \<in> set (upsert v d)"
    then show "(?P \<circ> ?g) r = (row_key r = row_key v)"
      using key_in_upsert [of r v d] assms(2) by (auto simp: row_key_def)
  qed
  also have "\<dots> = [v]"
    using uk row_in_upsert by (rule filter_key_unique)
  finally have "filter (?P \<circ> ?g) (upsert v d) = [v]" .
  then show ?thesis
    by (simp add: latest_rows_def demote_others_def filter_map)
qed

lemma latest_rows_other_pair:
  assumes "(p, a) \<noteq> (platform v, architecture v)"
  shows "latest_rows p a (demote_others (platform v) (architecture v) (version v) (upsert v d))
           = latest_rows p a d"
proof -
  let ?P = "\<lambda>r. platform r = p \<and> architecture r = a \<and> is_latest r"
  have demote: "latest_rows p a (demote_others (platform v) (architecture v) (version v) e)
      = latest_rows p a e" for e
    using assms by (induction e) (auto simp: latest_rows_def demote_others_def)
  have "latest_rows p a (map (\<lambda>r. if row_key r = row_key v then v else r) d) = latest_rows p a d"
    using assms by (induction d) (auto simp: latest_rows_def row_key_def)
  moreover have "latest_rows p a (d @ [v]) = latest_rows p a d"
    using assms by (auto simp: latest_rows_def)
  ultimately have "latest_rows p a (upsert v d) = latest_rows p a d"
    by (simp add: upsert_def)
  with demote show ?thesis by simp
qed

lemma single_latest_write:
  assumes "unique_keys d" and "single_latest d" and "is_latest v"
  shows "single_latest (demote_others (platform v) (architecture v) (version v) (upsert v d))"
  unfolding single_latest_iff
proof (intro allI)
  fix p a
  show "length (latest_rows p a
          (demote_others (platform v) (architecture v) (version v) (upsert v d))) \<le> 1"
  proof (cases "(p, a) = (platform v, architecture v)")
    case True
    then show ?thesis
      using latest_rows_written_pair [OF assms(1,3)] by simp
  next
    case False
    then show ?thesis
      using latest_rows_other_pair [OF False] assms(2) by (simp add: single_latest_iff)
  qed
qed

lemma processAsset_success:
  assumes "processAsset w a rel d = Inr d'" and "update_ok w"
  shows "\<exists>h. getSHA512FromYml w a rel = Inr h \<and>
           d' = demote_others (platform (versionData w a rel h))
                  (architecture (versionData w a rel h)) (version (versionData w a rel h))
                  (upsert (versionData w a rel h) d)"
  using assms
  by (auto simp: processAsset_def Let_def versionData_def split: sum.splits option.splits)

lemma getSHA512FromYml_served:
  assumes "List.find (\<lambda>y. asset_name y = ''latest-'' @
             (if includes_js (asset_name a) ''arm64'' then ''arm64'' else ''x64'') @ ''-mac.yml'')
             (assets rel) = Some y"
    and "fetch_asset w (asset_id y) = Response st txt content" and "ok st"
  shows "getSHA512FromYml w a rel =
           (case scan_lines (asset_name a) (split_js content [CHR 0x0A]) 0 of
              Inl e \<Rightarrow> Inl e
            | Inr (Some h) \<Rightarrow> Inr h
            | Inr None \<Rightarrow> Inl (SHA512NotFound (asset_name a)))"
  using assms by (simp add: getSHA512FromYml_def Let_def)

lemmas example_defs = example_host_def example_asset_def example_release_def
  manifest_of_lines_def

subsection \<open>Asset Filter\<close>

text \<open>
  Claim C1 says that a name whose lowercased form contains an installer extension,
  \<^verbatim>\<open>.AppImage\<close> among them, is accepted. The filter lowercases the name and then looks
  for the entry \<^verbatim>\<open>.AppImage\<close> as it is written, with its capitals, so the entry never
  matches: the asset \<^verbatim>\<open>PhotoPick-1.0.0.AppImage\<close> is rejected.
\<close>

theorem isAppAsset_rejects_AppImage:
  "isAppAsset (a\<lparr>asset_name := ''PhotoPick-1.0.0.AppImage''\<rparr>) = False"
proof -
  have "toLowerCase ''PhotoPick-1.0.0.AppImage'' = ''photopick-1.0.0.appimage''"
    by (simp add: toLowerCase_def lower_char_def char_of_eq_iff)
  then show ?thesis
    by (simp add: isAppAsset_def excludedPatterns_def appExtensions_def)
qed

subsection \<open>Attribute Deriver\<close>

text \<open>
  Claim C7: \<open>detectArchitecture\<close> returns one of \<^verbatim>\<open>arm64\<close>, \<^verbatim>\<open>x64\<close>, \<^verbatim>\<open>ia32\<close> for every
  file name: \<^verbatim>\<open>arm64\<close> if the name has the substring \<^verbatim>\<open>arm64\<close>, else \<^verbatim>\<open>x64\<close> if it has
  \<^verbatim>\<open>x64\<close> or \<^verbatim>\<open>x86_64\<close>, else \<^verbatim>\<open>ia32\<close> if it has \<^verbatim>\<open>ia32\<close> or \<^verbatim>\<open>i386\<close>, else \<^verbatim>\<open>x64\<close>; the
  first rule that matches decides, and \<^verbatim>\<open>app-1.0.0.dmg\<close> maps to \<^verbatim>\<open>x64\<close>. "Has the
  substring" is \<^const>\<open>sublist\<close>: the name is some text, the substring, some text.
\<close>

theorem detectArchitecture_rules:
  "detectArchitecture f \<in> {''arm64'', ''x64'', ''ia32''} \<and>
   detectArchitecture f =
     (if sublist ''arm64'' f then ''arm64''
      else if sublist ''x64'' f \<or> sublist ''x86_64'' f then ''x64''
      else if sublist ''ia32'' f \<or> sublist ''i386'' f then ''ia32''
      else ''x64'') \<and>
   detectArchitecture ''app-1.0.0.dmg'' = ''x64''"
  by (simp add: detectArchitecture_def includes_js_sublist [symmetric])

subsection \<open>Hash Resolver\<close>

text \<open>
  Claim C3, as amended. With the manifest found among the assets and downloaded, the
  resolver fails with "SHA512 not found" when no line containing
  \<^verbatim>\<open>url: <assetFileName>\<close> is immediately followed by a line containing \<^verbatim>\<open>sha512:\<close>, and
  it returns a hash as soon as some such line is followed by one. A url line whose next
  line has no \<^verbatim>\<open>sha512:\<close> does not end the scan.
\<close>

theorem hash_resolver_fails_iff_no_pair:
  assumes "List.find (\<lambda>y. asset_name y = ''latest-'' @
             (if includes_js (asset_name a) ''arm64'' then ''arm64'' else ''x64'') @ ''-mac.yml'')
             (assets rel) = Some y"
    and "fetch_asset w (asset_id y) = Response st txt content" and "ok st"
    and "lines = split_js content [CHR 0x0A]"
  shows "((\<forall>i. \<not> hash_pair_at (asset_name a) lines i) \<longrightarrow>
            getSHA512FromYml w a rel = Inl (SHA512NotFound (asset_name a))) \<and>
         ((\<exists>i. hash_pair_at (asset_name a) lines i) \<longrightarrow>
            (\<exists>h. getSHA512FromYml w a rel = Inr h))"
proof (intro conjI impI)
  assume "\<forall>i. \<not> hash_pair_at (asset_name a) lines i"
  then have "scan_lines (asset_name a) lines 0 = Inr None"
    by (intro scan_lines_no_pair) simp
  then show "getSHA512FromYml w a rel = Inl (SHA512NotFound (asset_name a))"
    using assms by (simp add: getSHA512FromYml_served)
next
  assume "\<exists>i. hash_pair_at (asset_name a) lines i"
  then obtain h where "scan_lines (asset_name a) lines 0 = Inr (Some h)"
    using scan_lines_some_pair by blast
  then show "\<exists>h. getSHA512FromYml w a rel = Inr h"
    using assms by (simp add: getSHA512FromYml_served)
qed

theorem hash_resolver_fails_iff_no_pair_witness:
  "getSHA512FromYml (example_host (manifest_of_lines [''url: app.exe'', ''size: 1'']))
     (example_asset ''app.exe'' 1)
     (example_release ''v1.0.0'' [example_asset ''app.exe'' 1, example_asset ''latest-x64-mac.yml'' 2])
   = Inl (SHA512NotFound ''app.exe'')"
proof -
  let ?m = "manifest_of_lines [''url: app.exe'', ''size: 1'']"
  let ?a = "example_asset ''app.exe'' 1"
  let ?y = "example_asset ''latest-x64-mac.yml'' 2"
  let ?r = "example_release ''v1.0.0'' [?a, ?y]"
  have found: "List.find (\<lambda>y. asset_name y = ''latest-'' @
             (if includes_js (asset_name ?a) ''arm64'' then ''arm64'' else ''x64'') @ ''-mac.yml'')
             (assets ?r) = Some ?y"
    by (simp add: example_defs)
  have fetched: "fetch_asset (example_host ?m) (asset_id ?y) = Response 200 ''OK'' ?m"
    by (simp add: example_defs)
  have ok: "ok 200" by (simp add: ok_def)
  have lines: "[''url: app.exe'', ''size: 1'', []] = split_js ?m [CHR 0x0A]"
    by (simp add: example_defs split_js_def)
  have none: "\<forall>i. \<not> hash_pair_at (asset_name ?a) [''url: app.exe'', ''size: 1'', []] i"
  proof
    fix i :: nat
    consider "i = 0" | "i = 1" | "2 \<le> i" by linarith
    then show "\<not> hash_pair_at (asset_name ?a) [''url: app.exe'', ''size: 1'', []] i"
      by cases (simp_all add: hash_pair_at_def)
  qed
  from hash_resolver_fails_iff_no_pair [OF found fetched ok lines] none
  show ?thesis by (simp add: example_asset_def)
qed

text \<open>
  Claim C3 as stated fails on the manifest with the lines \<^verbatim>\<open>url: app.exe\<close>, \<^verbatim>\<open>size: 1\<close>,
  \<^verbatim>\<open>url: app.exe\<close>, \<^verbatim>\<open>sha512: XYZ\<close>: the first url line is followed by a line without
  \<^verbatim>\<open>sha512:\<close>, and the resolver returns \<^verbatim>\<open>XYZ\<close> from the second pair.
\<close>

theorem scan_goes_on_after_unpaired_url_line:
  "includes_js (split_js (manifest_of_lines
        [''url: app.exe'', ''size: 1'', ''url: app.exe'', ''sha512: XYZ'']) [CHR 0x0A] ! 0)
     (''url: '' @ ''app.exe'') \<and>
   \<not> includes_js (split_js (manifest_of_lines
        [''url: app.exe'', ''size: 1'', ''url: app.exe'', ''sha512: XYZ'']) [CHR 0x0A] ! 1)
     ''sha512:'' \<and>
   getSHA512FromYml
     (example_host (manifest_of_lines
        [''url: app.exe'', ''size: 1'', ''url: app.exe'', ''sha512: XYZ'']))
     (example_asset ''app.exe'' 1)
     (example_release ''v1.0.0'' [example_asset ''app.exe'' 1, example_asset ''latest-x64-mac.yml'' 2])
   = Inr ''XYZ''"
  by (simp add: example_defs split_js_def getSHA512FromYml_def ok_def scan_lines.simps
      trim_def is_space_def)

text \<open>
  Claim C5, as amended. When the first line containing \<^verbatim>\<open>url: <assetFileName>\<close> is
  immediately followed by a line containing \<^verbatim>\<open>sha512:\<close>, the resolver returns the text
  after the first \<^verbatim>\<open>sha512:\<close> marker of that following line, up to the next \<^verbatim>\<open>sha512:\<close>
  marker of the line if there is one and to the end of the line otherwise, trimmed of
  surrounding white space. Here \<open>pre\<close> is the text before the first marker, \<open>rest\<close> the
  text after it and \<open>mid\<close> the part of \<open>rest\<close> before a second marker.
\<close>

theorem hash_is_text_between_markers:
  assumes "List.find (\<lambda>y. asset_name y = ''latest-'' @
             (if includes_js (asset_name a) ''arm64'' then ''arm64'' else ''x64'') @ ''-mac.yml'')
             (assets rel) = Some y"
    and "fetch_asset w (asset_id y) = Response st txt content" and "ok st"
    and "lines = split_js content [CHR 0x0A]"
    and "i + 1 < length lines"
    and "includes_js (lines ! i) (''url: '' @ asset_name a)"
    and "\<forall>j<i. \<not> includes_js (lines ! j) (''url: '' @ asset_name a)"
    and "lines ! (i + 1) = pre @ ''sha512:'' @ rest"
    and "\<not> includes_js pre ''sha512:''"
  shows "(\<not> includes_js rest ''sha512:'' \<longrightarrow> getSHA512FromYml w a rel = Inr (trim rest)) \<and>
         (\<forall>mid suf. rest = mid @ ''sha512:'' @ suf \<and> \<not> includes_js mid ''sha512:'' \<longrightarrow>
            getSHA512FromYml w a rel = Inr (trim mid))"
proof -
  have pair: "hash_pair_at (asset_name a) lines i"
    using assms(5,6,8) by (simp add: hash_pair_at_def includes_js_iff) blast
  have "scan_lines (asset_name a) lines 0 = scan_lines (asset_name a) lines i"
    using assms(5,7) by (intro scan_lines_skip) (simp_all add: hash_pair_at_def)
  moreover obtain p q qs where
    pieces: "split_js (lines ! (i + 1)) ''sha512:'' = p # q # qs"
    and "scan_lines (asset_name a) lines i = Inr (Some (trim q))"
    using scan_lines_at_pair [OF pair] by blast
  ultimately have res: "getSHA512FromYml w a rel = Inr (trim q)"
    using assms(1-4) by (simp add: getSHA512FromYml_served)
  have "split_js (lines ! (i + 1)) ''sha512:'' = pre # split_js rest ''sha512:''"
    unfolding assms(8) using assms(9) by (rule split_js_marker)
  with pieces have q: "q # qs = split_js rest ''sha512:''"
    by simp
  show ?thesis
  proof (intro conjI impI allI)
    assume "\<not> includes_js rest ''sha512:''"
    with q have "q = rest" by (simp add: split_js_no_marker)
    with res show "getSHA512FromYml w a rel = Inr (trim rest)" by simp
  next
    fix mid suf
    assume "rest = mid @ ''sha512:'' @ suf \<and> \<not> includes_js mid ''sha512:''"
    then have rest: "rest = mid @ ''sha512:'' @ suf" and mid: "\<not> includes_js mid ''sha512:''"
      by simp_all
    have "split_js rest ''sha512:'' = mid # split_js suf ''sha512:''"
      unfolding rest using mid by (rule split_js_marker)
    with q have "q = mid" by simp
    with res show "getSHA512FromYml w a rel = Inr (trim mid)" by simp
  qed
qed

text \<open>
  The example of the claim: on the manifest with the lines \<^verbatim>\<open>url: app-x64.exe\<close> and
  \<^verbatim>\<open>sha512: ABC123\<close>, resolving \<^verbatim>\<open>app-x64.exe\<close> returns exactly \<^verbatim>\<open>ABC123\<close>.
\<close>

theorem hash_is_text_between_markers_witness:
  "getSHA512FromYml
     (example_host (manifest_of_lines [''url: app-x64.exe'', ''sha512: ABC123'']))
     (example_asset ''app-x64.exe'' 1)
     (example_release ''v1.0.0''
        [example_asset ''app-x64.exe'' 1, example_asset ''latest-x64-mac.yml'' 2])
   = Inr ''ABC123''"
proof -
  let ?m = "manifest_of_lines [''url: app-x64.exe'', ''sha512: ABC123'']"
  let ?a = "example_asset ''app-x64.exe'' 1"
  let ?y = "example_asset ''latest-x64-mac.yml'' 2"
  let ?r = "example_release ''v1.0.0'' [?a, ?y]"
  let ?ls = "[''url: app-x64.exe'', ''sha512: ABC123'', []]"
  have found: "List.find (\<lambda>y. asset_name y = ''latest-'' @
             (if includes_js (asset_name ?a) ''arm64'' then ''arm64'' else ''x64'') @ ''-mac.yml'')
             (assets ?r) = Some ?y"
    by (simp add: example_defs)
  have fetched: "fetch_asset (example_host ?m) (asset_id ?y) = Response 200 ''OK'' ?m"
    by (simp add: example_defs)
  have ok: "ok 200" by (simp add: ok_def)
  have lines: "?ls = split_js ?m [CHR 0x0A]"
    by (simp add: example_defs split_js_def)
  have len: "0 + 1 < length ?ls" by simp
  have url: "includes_js (?ls ! 0) (''url: '' @ asset_name ?a)"
    by (simp add: example_asset_def)
  have first: "\<forall>j<0. \<not> includes_js (?ls ! j) (''url: '' @ asset_name ?a)"
    by simp
  have nxt: "?ls ! (0 + 1) = [] @ ''sha512:'' @ '' ABC123''" by simp
  have pre: "\<not> includes_js [] ''sha512:''" by simp
  have one: "\<not> includes_js '' ABC123'' ''sha512:''" by simp
  from hash_is_text_between_markers [OF found fetched ok lines len url first nxt pre] one
  show ?thesis by (simp add: trim_def is_space_def)
qed

text \<open>
  Claim C5 as stated fails on a following line with two markers: for the line
  \<^verbatim>\<open>sha512: ABC sha512: DEF\<close> everything after the marker, trimmed, is
  \<^verbatim>\<open>ABC sha512: DEF\<close>, and the resolver returns \<^verbatim>\<open>ABC\<close>, the second piece of the split.
\<close>

theorem hash_stops_at_second_marker:
  "split_js (manifest_of_lines [''url: app-x64.exe'', ''sha512: ABC sha512: DEF'']) [CHR 0x0A]
     = [''url: app-x64.exe'', ''sha512:'' @ '' ABC sha512: DEF'', []] \<and>
   getSHA512FromYml
     (example_host (manifest_of_lines [''url: app-x64.exe'', ''sha512: ABC sha512: DEF'']))
     (example_asset ''app-x64.exe'' 1)
     (example_release ''v1.0.0''
        [example_asset ''app-x64.exe'' 1, example_asset ''latest-x64-mac.yml'' 2])
   = Inr ''ABC'' \<and>
   trim '' ABC sha512: DEF'' = ''ABC sha512: DEF''"
  by (simp add: example_defs split_js_def getSHA512FromYml_def ok_def scan_lines.simps
      trim_def is_space_def)

text \<open>
  Claim C8: the url line is matched by containment, not by equality of the file name.
  Let line \<open>i\<close> name a file whose name extends that of the asset, so that it reads some
  text, \<^verbatim>\<open>url: <assetFileName>\<close>, more text \<open>ext\<close>, let no earlier line contain
  \<^verbatim>\<open>url: <assetFileName>\<close>, whatever else these lines and the lines after them hold, and
  let the line after line \<open>i\<close> contain \<^verbatim>\<open>sha512:\<close>. Then the resolver takes line \<open>i\<close> as the
  match and returns the hash of the line after it, the second piece of that line split
  at the marker, trimmed, instead of failing.
\<close>

theorem url_match_is_by_containment:
  assumes "List.find (\<lambda>y. asset_name y = ''latest-'' @
             (if includes_js (asset_name a) ''arm64'' then ''arm64'' else ''x64'') @ ''-mac.yml'')
             (assets rel) = Some y"
    and "fetch_asset w (asset_id y) = Response st txt content" and "ok st"
    and "lines = split_js content [CHR 0x0A]"
    and "i + 1 < length lines"
    and "lines ! i = pre @ (''url: '' @ asset_name a) @ ext"
    and "\<forall>j<i. \<not> includes_js (lines ! j) (''url: '' @ asset_name a)"
    and "includes_js (lines ! (i + 1)) ''sha512:''"
  shows "getSHA512FromYml w a rel = Inr (trim (split_js (lines ! (i + 1)) ''sha512:'' ! 1))"
proof -
  have "includes_js (lines ! i) (''url: '' @ asset_name a)"
    unfolding includes_js_iff using assms(6) by blast
  with assms(5,8) have pair: "hash_pair_at (asset_name a) lines i"
    by (simp add: hash_pair_at_def)
  have "scan_lines (asset_name a) lines 0 = scan_lines (asset_name a) lines i"
    using assms(5,7) by (intro scan_lines_skip) (simp_all add: hash_pair_at_def)
  moreover obtain p q qs where
    pieces: "split_js (lines ! (i + 1)) ''sha512:'' = p # q # qs"
    and "scan_lines (asset_name a) lines i = Inr (Some (trim q))"
    using scan_lines_at_pair [OF pair] by blast
  ultimately have "getSHA512FromYml w a rel = Inr (trim q)"
    using assms(1-4) by (simp add: getSHA512FromYml_served)
  with pieces show ?thesis by simp
qed

text \<open>
  On the manifest with the lines \<^verbatim>\<open>url: setup.dmg\<close>, \<^verbatim>\<open>sha512: DECOY\<close>,
  \<^verbatim>\<open>url: app.exe.blockmap\<close>, \<^verbatim>\<open>sha512: BLOCKMAPHASH\<close>, resolving \<^verbatim>\<open>app.exe\<close> passes the
  first url line, which does not contain \<^verbatim>\<open>url: app.exe\<close>, matches the line of
  \<^verbatim>\<open>app.exe.blockmap\<close> and returns \<^verbatim>\<open>BLOCKMAPHASH\<close>.
\<close>

theorem url_match_is_by_containment_witness:
  "split_js (manifest_of_lines [''url: setup.dmg'', ''sha512: DECOY'',
      ''url: app.exe.blockmap'', ''sha512: BLOCKMAPHASH'']) [CHR 0x0A]
     = [''url: setup.dmg'', ''sha512: DECOY'',
        ''url: app.exe.blockmap'', ''sha512: BLOCKMAPHASH'', []] \<and>
   getSHA512FromYml
     (example_host (manifest_of_lines [''url: setup.dmg'', ''sha512: DECOY'',
        ''url: app.exe.blockmap'', ''sha512: BLOCKMAPHASH'']))
     (example_asset ''app.exe'' 1)
     (example_release ''v1.0.0''
        [example_asset ''app.exe'' 1, example_asset ''latest-x64-mac.yml'' 2])
   = Inr ''BLOCKMAPHASH''"
proof -
  let ?m = "manifest_of_lines [''url: setup.dmg'', ''sha512: DECOY'',
      ''url: app.exe.blockmap'', ''sha512: BLOCKMAPHASH'']"
  let ?a = "example_asset ''app.exe'' 1"
  let ?y = "example_asset ''latest-x64-mac.yml'' 2"
  let ?r = "example_release ''v1.0.0'' [?a, ?y]"
  let ?ls = "[''url: setup.dmg'', ''sha512: DECOY'',
      ''url: app.exe.blockmap'', ''sha512: BLOCKMAPHASH'', []]"
  have found: "List.find (\<lambda>y. asset_name y = ''latest-'' @
             (if includes_js (asset_name ?a) ''arm64'' then ''arm64'' else ''x64'') @ ''-mac.yml'')
             (assets ?r) = Some ?y"
    by (simp add: example_defs)
  have fetched: "fetch_asset (example_host ?m) (asset_id ?y) = Response 200 ''OK'' ?m"
    by (simp add: example_defs)
  have ok: "ok 200" by (simp add: ok_def)
  have lines: "?ls = split_js ?m [CHR 0x0A]"
    by (simp add: example_defs split_js_def)
  have len: "2 + 1 < length ?ls" by simp
  have line: "?ls ! 2 = [] @ (''url: '' @ asset_name ?a) @ ''.blockmap''"
    by (simp add: example_asset_def)
  have first: "\<forall>j<2. \<not> includes_js (?ls ! j) (''url: '' @ asset_name ?a)"
  proof (intro allI impI)
    fix j :: nat
    assume "j < 2"
    then consider "j = 0" | "j = 1" by linarith
    then show "\<not> includes_js (?ls ! j) (''url: '' @ asset_name ?a)"
      by cases (simp_all add: example_asset_def)
  qed
  have marker: "includes_js (?ls ! (2 + 1)) ''sha512:''" by simp
  have piece: "trim (split_js (?ls ! (2 + 1)) ''sha512:'' ! 1) = ''BLOCKMAPHASH''"
    by (simp add: split_js_def trim_def is_space_def)
  from url_match_is_by_containment [OF found fetched ok lines len line first marker] piece
  have "getSHA512FromYml (example_host ?m) ?a ?r = Inr ''BLOCKMAPHASH''"
    by simp
  with lines show ?thesis by simp
qed

subsection \<open>Asset Filter and Platform Deriver together\<close>

lemma isAppAsset_lowercase_extension:
  assumes "\<not> excluded_name (asset_name a)"
    and "includes_js (toLowerCase (asset_name a)) x"
    and "x \<in> {''.dmg'', ''.exe'', ''.deb'', ''.rpm''}"
  shows "isAppAsset a"
  using assms by (auto simp: isAppAsset_def excluded_name_def appExtensions_def)

text \<open>
  Claim C9, as amended. An asset whose name contains \<^verbatim>\<open>.dmg\<close>, \<^verbatim>\<open>.exe\<close>, \<^verbatim>\<open>.deb\<close> or
  \<^verbatim>\<open>.rpm\<close> in any letter case, such as \<^verbatim>\<open>.DMG\<close> or \<^verbatim>\<open>.EXE\<close>, and whose lowercased name
  contains no excluded pattern, is accepted by \<open>isAppAsset\<close>; \<open>detectPlatform\<close>, which
  compares without lowercasing, gives it the platform \<^verbatim>\<open>unknown\<close> when the name contains
  none of \<^verbatim>\<open>.dmg\<close>, \<^verbatim>\<open>.exe\<close>, \<^verbatim>\<open>.AppImage\<close>, \<^verbatim>\<open>.deb\<close> as they are written.
\<close>

theorem any_case_extension_accepted_platform_case_sensitive:
  assumes "includes_js (asset_name a) e"
    and "toLowerCase e \<in> {''.dmg'', ''.exe'', ''.deb'', ''.rpm''}"
    and "\<not> excluded_name (asset_name a)"
  shows "isAppAsset a \<and>
         (\<not> includes_js (asset_name a) ''.dmg'' \<and> \<not> includes_js (asset_name a) ''.exe'' \<and>
          \<not> includes_js (asset_name a) ''.AppImage'' \<and> \<not> includes_js (asset_name a) ''.deb''
            \<longrightarrow> detectPlatform (asset_name a) = ''unknown'')"
proof
  have "includes_js (toLowerCase (asset_name a)) (toLowerCase e)"
    using assms(1) by (rule includes_js_toLowerCase)
  with assms(3) show "isAppAsset a"
    using assms(2) by (rule isAppAsset_lowercase_extension)
next
  show "\<not> includes_js (asset_name a) ''.dmg'' \<and> \<not> includes_js (asset_name a) ''.exe'' \<and>
        \<not> includes_js (asset_name a) ''.AppImage'' \<and> \<not> includes_js (asset_name a) ''.deb''
          \<longrightarrow> detectPlatform (asset_name a) = ''unknown''"
    by (simp add: detectPlatform_def)
qed

theorem any_case_extension_accepted_platform_case_sensitive_witness:
  "isAppAsset (example_asset ''PhotoPick-1.0.0.DMG'' 1) \<and>
   detectPlatform ''PhotoPick-1.0.0.DMG'' = ''unknown''"
proof -
  let ?a = "example_asset ''PhotoPick-1.0.0.DMG'' 1"
  have lower: "toLowerCase ''PhotoPick-1.0.0.DMG'' = ''photopick-1.0.0.dmg''"
    by (simp add: toLowerCase_def lower_char_def char_of_eq_iff)
  have e: "includes_js (asset_name ?a) ''.DMG''"
    by (simp add: example_asset_def)
  have le: "toLowerCase ''.DMG'' \<in> {''.dmg'', ''.exe'', ''.deb'', ''.rpm''}"
    by (simp add: toLowerCase_def lower_char_def char_of_eq_iff)
  have ex: "\<not> excluded_name (asset_name ?a)"
    by (simp add: example_asset_def excluded_name_def excludedPatterns_def lower)
  from any_case_extension_accepted_platform_case_sensitive [OF e le ex]
  show ?thesis by (simp add: example_asset_def)
qed

text \<open>
  Claim C9 as stated fails on \<^verbatim>\<open>PhotoPick-1.0.0.DMG.exe\<close>: the name contains the
  uppercase extension \<^verbatim>\<open>.DMG\<close> and no excluded pattern, it is accepted, and its platform
  is \<^verbatim>\<open>win32\<close> because the name also contains \<^verbatim>\<open>.exe\<close>.
\<close>

theorem uppercase_extension_with_known_platform:
  "includes_js ''PhotoPick-1.0.0.DMG.exe'' ''.DMG'' \<and>
   \<not> excluded_name ''PhotoPick-1.0.0.DMG.exe'' \<and>
   isAppAsset (example_asset ''PhotoPick-1.0.0.DMG.exe'' 1) \<and>
   detectPlatform ''PhotoPick-1.0.0.DMG.exe'' = ''win32''"
proof -
  have "toLowerCase ''PhotoPick-1.0.0.DMG.exe'' = ''photopick-1.0.0.dmg.exe''"
    by (simp add: toLowerCase_def lower_char_def char_of_eq_iff)
  then show ?thesis
    by (simp add: isAppAsset_def excluded_name_def excludedPatterns_def appExtensions_def
        example_asset_def detectPlatform_def)
qed

subsection \<open>Persistence Writer\<close>

text \<open>
  Claim C4 says that the version written is the tag name without a leading \<^verbatim>\<open>v\<close>, and
  the tag name itself when it does not start with \<^verbatim>\<open>v\<close>. The script calls
  \<^verbatim>\<open>replace('v', '')\<close>, which removes the first \<^verbatim>\<open>v\<close> wherever it stands: the tag
  \<^verbatim>\<open>1.0.0-dev\<close> is written as version \<^verbatim>\<open>1.0.0-de\<close>.
\<close>

theorem version_loses_first_v_anywhere:
  "version (versionData w a (rel\<lparr>tag_name := ''1.0.0-dev''\<rparr>) h) = ''1.0.0-de''"
  by (simp add: versionData_def)

lemma row_in_demote_others:
  "v \<in> set d \<Longrightarrow> v \<in> set (demote_others p a (version v) d)"
proof -
  assume "v \<in> set d"
  then show ?thesis
    unfolding demote_others_def set_map by (rule image_eqI [rotated]) simp
qed

lemma versionData_written:
  assumes "processAsset w a rel d = Inr d'"
  shows "\<exists>h. getSHA512FromYml w a rel = Inr h \<and> versionData w a rel h \<in> set d'"
proof (cases "getSHA512FromYml w a rel")
  case (Inl e)
  with assms show ?thesis by (simp add: processAsset_def)
next
  case (Inr h)
  let ?v = "versionData w a rel h"
  have ver: "replace_js (tag_name rel) ''v'' [] = version ?v"
    by (simp add: versionData_def)
  show ?thesis
  proof (cases "upsert_error w ?v")
    case (Some m)
    with Inr assms show ?thesis by (simp add: processAsset_def)
  next
    case None
    with Inr assms have "d' = (if update_ok w
        then demote_others (detectPlatform (asset_name a)) (detectArchitecture (asset_name a))
               (version ?v) (upsert ?v d)
        else upsert ?v d)"
      by (auto simp: processAsset_def Let_def ver)
    then have "?v \<in> set d'"
      using row_in_upsert [of ?v d] by (simp add: row_in_demote_others)
    with Inr show ?thesis by simp
  qed
qed

text \<open>
  Claim C10: for a release whose body is absent or empty, the row that
  \<open>processAsset\<close> writes has as release notes the text \<^verbatim>\<open>Version \<close> followed by the full
  tag name of the release, leading \<^verbatim>\<open>v\<close> included.
\<close>

theorem release_notes_default:
  assumes "body rel = None \<or> body rel = Some []"
    and "processAsset w a rel d = Inr d'"
  shows "\<exists>h. getSHA512FromYml w a rel = Inr h \<and> versionData w a rel h \<in> set d' \<and>
             release_notes (versionData w a rel h) = ''Version '' @ tag_name rel"
proof -
  from versionData_written [OF assms(2)] obtain h where
    "getSHA512FromYml w a rel = Inr h" and "versionData w a rel h \<in> set d'"
    by blast
  moreover have "release_notes (versionData w a rel h) = ''Version '' @ tag_name rel"
    using assms(1) by (auto simp: versionData_def truthy_def)
  ultimately show ?thesis by blast
qed

text \<open>
  Two runs of \<open>processAsset\<close> on the example inputs: release \<^verbatim>\<open>v1.2.0\<close> into the empty
  table, then release \<^verbatim>\<open>v1.3.0\<close> into the result.
\<close>

lemmas eval_defs = processAsset_def getSHA512FromYml_def versionData_def upsert_def
  demote_others_def detectPlatform_def detectArchitecture_def scan_lines.simps split_js_def
  trim_def is_space_def ok_def row_key_def truthy_def replace_js.simps

lemma dmg_run_1_2_0:
  "processAsset dmg_host (dmg_asset ''1.2.0'') (dmg_release ''1.2.0'') []
     = Inr [versionData dmg_host (dmg_asset ''1.2.0'') (dmg_release ''1.2.0'') ''HASH120'']"
  by (simp add: eval_defs example_defs dmg_asset_def dmg_release_def dmg_host_def)

lemma dmg_run_1_3_0:
  "processAsset dmg_host (dmg_asset ''1.3.0'') (dmg_release ''1.3.0'')
     [versionData dmg_host (dmg_asset ''1.2.0'') (dmg_release ''1.2.0'') ''HASH120'']
     = Inr [(versionData dmg_host (dmg_asset ''1.2.0'') (dmg_release ''1.2.0'') ''HASH120'')
              \<lparr>is_latest := False\<rparr>,
            versionData dmg_host (dmg_asset ''1.3.0'') (dmg_release ''1.3.0'') ''HASH130'']"
  by (simp add: eval_defs example_defs dmg_asset_def dmg_release_def dmg_host_def)

theorem release_notes_default_witness:
  "list_all (\<lambda>r. release_notes r = ''Version v1.2.0'')
     (projr (processAsset dmg_host (dmg_asset ''1.2.0'') (dmg_release ''1.2.0'') []))"
proof -
  have b: "body (dmg_release ''1.2.0'') = None \<or> body (dmg_release ''1.2.0'') = Some []"
    by (simp add: dmg_release_def example_release_def)
  from release_notes_default [OF b dmg_run_1_2_0]
  have "release_notes (versionData dmg_host (dmg_asset ''1.2.0'') (dmg_release ''1.2.0'') ''HASH120'')
      = ''Version '' @ tag_name (dmg_release ''1.2.0'')"
    by auto
  moreover have "''Version '' @ tag_name (dmg_release ''1.2.0'') = ''Version v1.2.0''"
    by (simp add: dmg_release_def example_release_def)
  ultimately show ?thesis
    by (simp only: dmg_run_1_2_0 sum.sel list.pred_inject simp_thms)
qed

text \<open>
  Claim C2: from a table in which at most one row of each platform and architecture
  is marked latest, a successful \<open>processAsset\<close> whose update is carried out leaves a
  table with the same property, and the rows marked latest for the platform and
  architecture of the asset are exactly the row just written. The table has the unique
  key (version, platform, architecture) that the upsert names as its conflict target,
  before and after. Writing \<^verbatim>\<open>1.2.0\<close> and then \<^verbatim>\<open>1.3.0\<close> for darwin and x64 leaves the
  \<^verbatim>\<open>1.3.0\<close> row as the only one marked latest.
\<close>

theorem writer_keeps_single_latest:
  assumes "unique_keys d" and "single_latest d" and "update_ok w"
    and "processAsset w a rel d = Inr d'"
  shows "unique_keys d' \<and> single_latest d' \<and>
         (\<exists>h. getSHA512FromYml w a rel = Inr h \<and>
               latest_rows (detectPlatform (asset_name a)) (detectArchitecture (asset_name a)) d'
                 = [versionData w a rel h])"
proof -
  from processAsset_success [OF assms(4,3)] obtain h where
    h: "getSHA512FromYml w a rel = Inr h" and
    d': "d' = demote_others (platform (versionData w a rel h))
                  (architecture (versionData w a rel h)) (version (versionData w a rel h))
                  (upsert (versionData w a rel h) d)"
    by blast
  have latest: "is_latest (versionData w a rel h)"
    by (simp add: versionData_def)
  have "unique_keys d'"
    unfolding d' using assms(1) by (intro unique_keys_demote_others unique_keys_upsert)
  moreover have "single_latest d'"
    unfolding d' using assms(1,2) latest by (rule single_latest_write)
  moreover have "latest_rows (platform (versionData w a rel h))
      (architecture (versionData w a rel h)) d' = [versionData w a rel h]"
    unfolding d' using assms(1) latest by (rule latest_rows_written_pair)
  then have "latest_rows (detectPlatform (asset_name a)) (detectArchitecture (asset_name a)) d'
      = [versionData w a rel h]"
    by (simp add: versionData_def)
  ultimately show ?thesis using h by blast
qed

theorem writer_keeps_single_latest_witness:
  "single_latest
     (projr (processAsset dmg_host (dmg_asset ''1.3.0'') (dmg_release ''1.3.0'')
        (projr (processAsset dmg_host (dmg_asset ''1.2.0'') (dmg_release ''1.2.0'') [])))) \<and>
   map (\<lambda>r. (version r, platform r, architecture r, is_latest r))
     (projr (processAsset dmg_host (dmg_asset ''1.3.0'') (dmg_release ''1.3.0'')
        (projr (processAsset dmg_host (dmg_asset ''1.2.0'') (dmg_release ''1.2.0'') []))))
     = [(''1.2.0'', ''darwin'', ''x64'', False), (''1.3.0'', ''darwin'', ''x64'', True)]"
proof -
  let ?v12 = "versionData dmg_host (dmg_asset ''1.2.0'') (dmg_release ''1.2.0'') ''HASH120''"
  let ?v13 = "versionData dmg_host (dmg_asset ''1.3.0'') (dmg_release ''1.3.0'') ''HASH130''"
  have uk: "unique_keys [?v12]"
    by (simp add: unique_keys_def)
  have sl: "single_latest [?v12]"
    by (simp add: single_latest_def latest_rows_def)
  have upd: "update_ok dmg_host"
    by (simp add: dmg_host_def example_host_def)
  from writer_keeps_single_latest [OF uk sl upd dmg_run_1_3_0]
  have "single_latest [?v12\<lparr>is_latest := False\<rparr>, ?v13]"
    by simp
  moreover have "map (\<lambda>r. (version r, platform r, architecture r, is_latest r))
      [?v12\<lparr>is_latest := False\<rparr>, ?v13]
      = [(''1.2.0'', ''darwin'', ''x64'', False), (''1.3.0'', ''darwin'', ''x64'', True)]"
    by (simp add: eval_defs example_defs dmg_asset_def dmg_release_def dmg_host_def)
  ultimately show ?thesis
    by (simp only: dmg_run_1_2_0 dmg_run_1_3_0 sum.sel) 
qed

subsection \<open>Release Fetcher and the job\<close>

text \<open>
  Claim C6: \<open>fetchReleaseByTag\<close> returns the null result exactly when the host
  answers with status 404; on any other status outside 200 to 299 it throws the API
  error; and when the lookup by tag gives the null result, the job ends with the error
  "Release not found" for the configured tag and exit code 1, the table untouched.
\<close>

theorem tag_lookup_not_found:
  "(fetchReleaseByTag w tag = Inr None \<longleftrightarrow>
      (\<exists>txt rel. fetch_release_by_tag w tag = Response 404 txt rel)) \<and>
   (fetch_release_by_tag w tag = Response st txt rel \<and> \<not> ok st \<and> st \<noteq> 404 \<longrightarrow>
      fetchReleaseByTag w tag = Inl (GitHubApiError st txt)) \<and>
   (truthy (supabaseUrl c) \<and> truthy (supabaseKey c) \<and>
    \<not> (truthy (releaseId c) \<and> \<not> isManualTrigger c) \<and>
    fetchReleaseByTag w (template_text (releaseTag c)) = Inr None \<longrightarrow>
      syncReleaseToSupabase c w d =
        \<lparr>exit_code = 1, failure = Some (ReleaseNotFound (template_text (releaseTag c))),
         final_db = d\<rparr>)"
proof (intro conjI)
  show "fetchReleaseByTag w tag = Inr None \<longleftrightarrow>
      (\<exists>txt rel. fetch_release_by_tag w tag = Response 404 txt rel)"
    by (auto simp: fetchReleaseByTag_def ok_def split: fetched.splits if_splits)
next
  show "fetch_release_by_tag w tag = Response st txt rel \<and> \<not> ok st \<and> st \<noteq> 404 \<longrightarrow>
      fetchReleaseByTag w tag = Inl (GitHubApiError st txt)"
    by (simp add: fetchReleaseByTag_def)
next
  show "truthy (supabaseUrl c) \<and> truthy (supabaseKey c) \<and>
    \<not> (truthy (releaseId c) \<and> \<not> isManualTrigger c) \<and>
    fetchReleaseByTag w (template_text (releaseTag c)) = Inr None \<longrightarrow>
      syncReleaseToSupabase c w d =
        \<lparr>exit_code = 1, failure = Some (ReleaseNotFound (template_text (releaseTag c))),
         final_db = d\<rparr>"
    by (auto simp: syncReleaseToSupabase_def)
qed

theorem tag_lookup_not_found_witness:
  "fetchReleaseByTag host_without_release ''v9.9.9'' = Inr None \<and>
   syncReleaseToSupabase (example_config ''v9.9.9'') host_without_release [] =
     \<lparr>exit_code = 1, failure = Some (ReleaseNotFound ''v9.9.9''), final_db = []\<rparr> \<and>
   fetchReleaseByTag
     (host_without_release\<lparr>fetch_release_by_tag :=
        (\<lambda>_. Response 500 ''Internal Server Error'' (example_release [] []))\<rparr>) ''v9.9.9''
     = Inl (GitHubApiError 500 ''Internal Server Error'')"
proof -
  let ?w = host_without_release
  let ?w5 = "host_without_release\<lparr>fetch_release_by_tag :=
        (\<lambda>_. Response 500 ''Internal Server Error'' (example_release [] []))\<rparr>"
  let ?c = "example_config ''v9.9.9''"
  have r404: "\<exists>txt rel. fetch_release_by_tag ?w ''v9.9.9'' = Response 404 txt rel"
    by (simp add: host_without_release_def)
  have none: "fetchReleaseByTag ?w ''v9.9.9'' = Inr None"
    using tag_lookup_not_found [of ?w "''v9.9.9''"] r404 by blast
  have cfg: "truthy (supabaseUrl ?c) \<and> truthy (supabaseKey ?c) \<and>
      \<not> (truthy (releaseId ?c) \<and> \<not> isManualTrigger ?c) \<and>
      template_text (releaseTag ?c) = ''v9.9.9''"
    by (simp add: example_config_def truthy_def template_text_def)
  have job: "syncReleaseToSupabase ?c ?w [] =
      \<lparr>exit_code = 1, failure = Some (ReleaseNotFound ''v9.9.9''), final_db = []\<rparr>"
    using tag_lookup_not_found [of ?w _ _ _ _ ?c "[]"] cfg none by simp
  have r500: "fetch_release_by_tag ?w5 ''v9.9.9''
      = Response 500 ''Internal Server Error'' (example_release [] []) \<and> \<not> ok 500 \<and>
        (500::nat) \<noteq> 404"
    by (simp add: ok_def)
  have "fetchReleaseByTag ?w5 ''v9.9.9'' = Inl (GitHubApiError 500 ''Internal Server Error'')"
    using tag_lookup_not_found [of ?w5 "''v9.9.9''" 500 "''Internal Server Error''"
        "example_release [] []"] r500 by blast
  with none job show ?thesis by simp
qed

end
